theory Spec2Isabelle
  imports Complex_Main "HOL-Library.Sublist"
begin

section \<open>Data model of \<open>project.py\<close>\<close>

text \<open>
  The class \<open>OrderBlockVisualizer\<close> of \<open>src/project.py\<close> keeps a downloaded price
  frame and scans it bar by bar. The download and the plotting are input and output; the
  frame is a parameter here. A row of the frame is a \<open>candle\<close>: its position in the
  list is the positional index the source uses (\<open>self.data['Low'][i]\<close>), and
  \<open>timestamp\<close> is the frame's own index, which the analysis never reads.

  Prices are floats that the source only compares, copies and feeds to \<open>min\<close> and
  \<open>max\<close>; none of these rounds, so a price is a \<open>real\<close>. The one special float that
  occurs is pandas' NaN, the value of a rolling aggregate that has too little history:
  a possibly missing price is a \<open>real option\<close> with \<open>None\<close> for NaN.
\<close>

datatype error = ValueError | IndexError | TypeError

record candle =
  timestamp :: int
  Open :: real
  High :: real
  Low :: real
  Close :: real

text \<open>The dictionary built by \<open>add_order_block\<close> (lines 82-88), used for zones and for
  BOS lines alike. The key \<open>top\<close> is the field \<open>top_b\<close>.\<close>

record box =
  left :: nat
  top_b :: real
  bottom :: real
  right :: int
  color :: string

text \<open>\<open>_init_variables\<close> stores the numbers \<open>0\<close> and \<open>1000000\<close> in
  \<open>structureLowIndex\<close> and \<open>structureLow\<close>; \<open>calculate_structure_low\<close> replaces
  them by a list and a series. A field of either shape:\<close>

datatype 'a field = Scalar 'a | Series "'a list"

text \<open>The attributes of \<open>self\<close>. \<open>pdh\<close> and \<open>pdl\<close> do not exist before
  \<open>calculate_pdh_pdl\<close> has run (\<open>None\<close>).\<close>

record engine =
  data :: "candle list"
  range_len :: int
  short_boxes :: "box list"
  long_boxes :: "box list"
  bos_lines :: "box list"
  lastDownIndex :: nat
  lastDown :: real
  lastLow :: real
  lastUpIndex :: nat
  lastUp :: real
  lastUpLow :: real
  lastUpOpen :: real
  lastHigh :: real
  structureLowIndex :: "nat field"
  structureLow :: "real option field"
  lastLongIndex :: nat
  lastShortIndex :: nat
  pdh :: "real option"
  pdl :: "real option"

section \<open>Library operations the source calls\<close>

text \<open>A \<open>for\<close> loop whose body may raise: the first exception ends the loop.\<close>

fun for_each :: "('a \<Rightarrow> 's \<Rightarrow> error + 's) \<Rightarrow> 'a list \<Rightarrow> 's \<Rightarrow> error + 's" where
  "for_each f [] s = Inr s"
| "for_each f (x # xs) s = (case f x s of Inl e \<Rightarrow> Inl e | Inr s' \<Rightarrow> for_each f xs s')"

text \<open>
  \<open>Series.rolling(window=w).agg()\<close> for \<open>min\<close> and \<open>max\<close>: the window of position
  \<open>j\<close> holds the positions \<open>j + 1 - w .. j\<close> that exist; the result is NaN unless the
  window is non-empty and holds at least \<open>min_periods = w\<close> values.
\<close>

definition rolling :: "(real \<Rightarrow> real \<Rightarrow> real) \<Rightarrow> nat \<Rightarrow> real list \<Rightarrow> real option list" where
  "rolling agg w xs =
     map (\<lambda>j. let win = drop (Suc j - w) (take (Suc j) xs)
              in if win \<noteq> [] \<and> w \<le> length win then Some (fold agg (tl win) (hd win))
                 else None)
         [0..<length xs]"

text \<open>\<open>Series.shift(1)\<close>: every value moves one position down, the first becomes NaN,
  the last is dropped.\<close>

definition shift1 :: "real option list \<Rightarrow> real option list" where
  "shift1 ys = (case ys of [] \<Rightarrow> [] | _ # _ \<Rightarrow> None # butlast ys)"

text \<open>\<open>x < y\<close> on floats where \<open>y\<close> may be NaN: every comparison with NaN is false.\<close>

definition nan_lt :: "real \<Rightarrow> real option \<Rightarrow> bool" where
  "nan_lt x y = (case y of None \<Rightarrow> False | Some v \<Rightarrow> x < v)"

text \<open>Subscripting a Python sequence of length \<open>n\<close> with an integer \<open>i\<close>: positions
  \<open>0 .. n - 1\<close> are read as they are, \<open>- n .. - 1\<close> are read from the end, and any
  other \<open>i\<close> raises.\<close>

definition py_index :: "'a list \<Rightarrow> int \<Rightarrow> error + 'a" where
  "py_index xs i =
     (if 0 \<le> i \<and> i < int (length xs) then Inr (xs ! nat i)
      else if i < 0 \<and> - int (length xs) \<le> i then Inr (xs ! nat (int (length xs) + i))
      else Inl IndexError)"

section \<open>The visualizer\<close>

text \<open>Lines 34-49.\<close>

definition init_variables :: "engine \<Rightarrow> engine" where
  "init_variables st =
     st\<lparr>lastDownIndex := 0, lastDown := 0, lastLow := 0,
        lastUpIndex := 0, lastUp := 0, lastUpLow := 0, lastUpOpen := 0, lastHigh := 0,
        structureLowIndex := Scalar 0, structureLow := Scalar (Some 1000000),
        lastLongIndex := 0, lastShortIndex := 0\<rparr>"

text \<open>Lines 7-24, with the downloaded frame as a parameter.\<close>

definition OrderBlockVisualizer :: "candle list \<Rightarrow> int \<Rightarrow> engine" where
  "OrderBlockVisualizer frame rl =
     init_variables
       \<lparr>data = frame, range_len = rl, short_boxes = [], long_boxes = [], bos_lines = [],
        lastDownIndex = 0, lastDown = 0, lastLow = 0, lastUpIndex = 0, lastUp = 0,
        lastUpLow = 0, lastUpOpen = 0, lastHigh = 0, structureLowIndex = Scalar 0,
        structureLow = Scalar None, lastLongIndex = 0, lastShortIndex = 0,
        pdh = None, pdl = None\<rparr>"

subsection \<open>Structure extractor (lines 51-70)\<close>

text \<open>One round of the loop of lines 59-62. \<open>self.data['Low'][i]\<close> raises when the
  frame has no row \<open>i\<close>.\<close>

fun pointer_step :: "candle list \<Rightarrow> nat \<Rightarrow> real option list \<times> nat list
    \<Rightarrow> error + (real option list \<times> nat list)" where
  "pointer_step frame i (minValue, minIndex) =
     (if length frame \<le> i then Inl IndexError
      else if nan_lt (Low (frame ! i)) (minValue ! i)
        then Inr (minValue[i := Some (Low (frame ! i))], minIndex[i := i])
        else Inr (minValue, minIndex))"

text \<open>pandas rejects a negative window with a \<open>ValueError\<close>.\<close>

definition structureLowIndexPointer :: "engine \<Rightarrow> error + nat list" where
  "structureLowIndexPointer st =
     (if range_len st < 0 then Inl ValueError
      else
        (let minValue = shift1 (rolling max (nat (range_len st)) (map High (data st)));
             minIndex = [0..<length (data st)]
         in case for_each (pointer_step (data st)) [1..<nat (range_len st)] (minValue, minIndex) of
              Inl e \<Rightarrow> Inl e
            | Inr (mv, mi) \<Rightarrow> Inr mi))"

text \<open>The series assigned by line 69.\<close>

definition structure_low_series :: "candle list \<Rightarrow> nat \<Rightarrow> real option list" where
  "structure_low_series frame w = shift1 (rolling min w (map Low frame))"

definition calculate_structure_low :: "engine \<Rightarrow> error + engine" where
  "calculate_structure_low st =
     (if range_len st < 0 then Inl ValueError
      else
        (let st1 = st\<lparr>structureLow := Series (structure_low_series (data st) (nat (range_len st)))\<rparr>
         in case structureLowIndexPointer st1 of
              Inl e \<Rightarrow> Inl e
            | Inr mi \<Rightarrow> Inr (st1\<lparr>structureLowIndex := Series mi\<rparr>)))"

subsection \<open>Order-block engine (lines 72-132)\<close>

definition add_order_block :: "engine \<Rightarrow> nat \<Rightarrow> real \<Rightarrow> real \<Rightarrow> string \<Rightarrow> box" where
  "add_order_block st index t b c =
     \<lparr>left = index, top_b = t, bottom = b, right = int (length (data st)) - 1, color = c\<rparr>"

text \<open>Lines 95-100: the bearish structure break of bar \<open>i\<close>. Subscripting the number
  that \<open>_init_variables\<close> left in \<open>structureLow\<close> or \<open>structureLowIndex\<close> raises a
  \<open>TypeError\<close>.\<close>

definition bearish_break :: "nat \<Rightarrow> engine \<Rightarrow> error + engine" where
  "bearish_break i st =
     (if length (data st) \<le> i then Inl IndexError
      else case structureLow st of
        Scalar _ \<Rightarrow> Inl TypeError
      | Series sl \<Rightarrow>
          if length sl \<le> i then Inl IndexError
          else (case sl ! i of
            None \<Rightarrow> Inr st
          | Some v \<Rightarrow>
              if Low (data st ! i) < v then
                (if int i - int (lastUpIndex st) < 1000 then
                   (case structureLowIndex st of
                      Scalar _ \<Rightarrow> Inl TypeError
                    | Series sli \<Rightarrow>
                        if length sli \<le> i then Inl IndexError
                        else Inr (st\<lparr>short_boxes := short_boxes st @
                                        [add_order_block st (lastUpIndex st) (lastHigh st)
                                           (lastUpLow st) ''rgba(255,0,0,0.9)''],
                                      bos_lines := bos_lines st @
                                        [add_order_block st (sli ! i) v v ''red''],
                                      lastShortIndex := lastUpIndex st\<rparr>))
                 else Inr (st\<lparr>lastShortIndex := lastUpIndex st\<rparr>))
              else Inr st))"

text \<open>Lines 106-110, run for a short zone \<open>b\<close> that line 105 has just removed.\<close>

definition bullish_flip :: "nat \<Rightarrow> box \<Rightarrow> engine \<Rightarrow> engine" where
  "bullish_flip i b st =
     (if int i - int (lastDownIndex st) < 1000 \<and> lastLongIndex st < i then
        st\<lparr>long_boxes := long_boxes st @
              [add_order_block st (lastDownIndex st) (lastDown st) (lastLow st) ''rgba(0,255,0,0.9)''],
           bos_lines := bos_lines st @ [add_order_block st (left b) (top_b b) (top_b b) ''green''],
           lastLongIndex := i\<rparr>
      else st)"

text \<open>
  Lines 103-110: \<open>for box in self.short_boxes\<close> with \<open>self.short_boxes.remove(box)\<close>
  in its body. Python's list iterator keeps a position \<open>k\<close>: each round yields the
  element at position \<open>k\<close> of the list as it is then and moves to \<open>k + 1\<close>; the loop
  ends when \<open>k\<close> reaches the current length. \<open>remove\<close> deletes the first element
  equal to its argument.
\<close>

function short_loop :: "nat \<Rightarrow> nat \<Rightarrow> engine \<Rightarrow> engine" where
  "short_loop i k st =
     (if k < length (short_boxes st) then
        (if top_b (short_boxes st ! k) < Close (data st ! i) then
           short_loop i (Suc k)
             (bullish_flip i (short_boxes st ! k)
                (st\<lparr>short_boxes := remove1 (short_boxes st ! k) (short_boxes st)\<rparr>))
         else short_loop i (Suc k) st)
      else st)"
  by pat_completeness auto
termination
  by (relation "measure (\<lambda>(i, k, st). length (short_boxes st) - k)")
     (auto simp: bullish_flip_def length_remove1)

text \<open>Lines 113-115, the same iteration over \<open>self.long_boxes\<close>.\<close>

function long_loop :: "nat \<Rightarrow> nat \<Rightarrow> engine \<Rightarrow> engine" where
  "long_loop i k st =
     (if k < length (long_boxes st) then
        (if Close (data st ! i) < bottom (long_boxes st ! k) then
           long_loop i (Suc k) (st\<lparr>long_boxes := remove1 (long_boxes st ! k) (long_boxes st)\<rparr>)
         else long_loop i (Suc k) st)
      else st)"
  by pat_completeness auto
termination
  by (relation "measure (\<lambda>(i, k, st). length (long_boxes st) - k)")
     (auto simp: length_remove1)

declare short_loop.simps [simp del] long_loop.simps [simp del]

definition invalidate_shorts :: "nat \<Rightarrow> engine \<Rightarrow> engine" where
  "invalidate_shorts i st = (if 0 < length (short_boxes st) then short_loop i 0 st else st)"

definition invalidate_longs :: "nat \<Rightarrow> engine \<Rightarrow> engine" where
  "invalidate_longs i st = (if 0 < length (long_boxes st) then long_loop i 0 st else st)"

text \<open>Lines 118-132: the record of the last candles.\<close>

definition record_candles :: "nat \<Rightarrow> engine \<Rightarrow> engine" where
  "record_candles i st =
     (let c = data st ! i;
          st1 = (if Close c < Open c
                 then st\<lparr>lastDown := High c, lastDownIndex := i, lastLow := Low c\<rparr> else st);
          st2 = (if Open c < Close c
                 then st1\<lparr>lastUp := Close c, lastUpIndex := i, lastUpOpen := Open c,
                          lastUpLow := Low c, lastHigh := High c\<rparr> else st1)
      in st2\<lparr>lastHigh := max (lastHigh st2) (High c), lastLow := min (lastLow st2) (Low c)\<rparr>)"

text \<open>The body of the loop of line 94 for bar \<open>i\<close>.\<close>

definition process_bar :: "nat \<Rightarrow> engine \<Rightarrow> error + engine" where
  "process_bar i st =
     (case bearish_break i st of
        Inl e \<Rightarrow> Inl e
      | Inr st1 \<Rightarrow> Inr (record_candles i (invalidate_longs i (invalidate_shorts i st1))))"

text \<open>The scan of the first \<open>k\<close> bars, and the whole of \<open>process_order_blocks\<close>.\<close>

definition scan_upto :: "nat \<Rightarrow> engine \<Rightarrow> error + engine" where
  "scan_upto k st = for_each process_bar [0..<k] st"

definition process_order_blocks :: "engine \<Rightarrow> error + engine" where
  "process_order_blocks st = scan_upto (length (data st)) st"

subsection \<open>Reference levels (lines 134-139)\<close>

definition calculate_pdh_pdl :: "engine \<Rightarrow> error + engine" where
  "calculate_pdh_pdl st =
     (case py_index (map High (data st)) (- 2) of
        Inl e \<Rightarrow> Inl e
      | Inr h \<Rightarrow>
          (case py_index (map Low (data st)) (- 2) of
             Inl e \<Rightarrow> Inl e
           | Inr l \<Rightarrow> Inr (st\<lparr>pdh := Some h, pdl := Some l\<rparr>)))"

subsection \<open>The script (lines 223-226)\<close>

text \<open>The calls of the script up to the scan, and up to the reference levels.\<close>

definition analyse :: "candle list \<Rightarrow> int \<Rightarrow> error + engine" where
  "analyse frame rl =
     (case calculate_structure_low (OrderBlockVisualizer frame rl) of
        Inl e \<Rightarrow> Inl e
      | Inr st \<Rightarrow> process_order_blocks st)"

definition script :: "candle list \<Rightarrow> int \<Rightarrow> error + engine" where
  "script frame rl =
     (case analyse frame rl of Inl e \<Rightarrow> Inl e | Inr st \<Rightarrow> calculate_pdh_pdl st)"

section \<open>Example frames\<close>

definition bar :: "int \<Rightarrow> real \<Rightarrow> real \<Rightarrow> real \<Rightarrow> real \<Rightarrow> candle" where
  "bar t opn h l c = \<lparr>timestamp = t, Open = opn, High = h, Low = l, Close = c\<rparr>"

text \<open>Three bars whose lowest low is at position 1.\<close>

definition dip_frame :: "candle list" where
  "dip_frame = [bar 1 3 4 3 3, bar 2 2 3 1 2, bar 3 2 3 2 2]"

text \<open>Four bars: structure breaks at bars 1 and 2 create two short zones, and bar 3
  closes above the tops of both.\<close>

definition flip_frame :: "candle list" where
  "flip_frame = [bar 1 20 22 18 20, bar 2 17 24 16 19, bar 3 18 20 14 15, bar 4 16 27 14 26]"

text \<open>Two bars with \<open>high < low\<close> and timestamps that run backwards.\<close>

definition bad_frame :: "candle list" where
  "bad_frame = [bar 2 5 1 4 5, bar 1 2 1 3 1]"

text \<open>Two bearish bars, the second with the lower low.\<close>

definition early_break_frame :: "candle list" where
  "early_break_frame = [bar 1 5 6 3 4, bar 2 4 5 2 3]"

section \<open>Predicates on the state of the scan\<close>

text \<open>The scan never writes the frame or the two series.\<close>

definition prepared :: "candle list \<Rightarrow> real option list \<Rightarrow> nat list \<Rightarrow> engine \<Rightarrow> bool" where
  "prepared frame sl sli st =
     (data st = frame \<and> structureLow st = Series sl \<and> structureLowIndex st = Series sli)"

text \<open>The tracker's bullish low is not above its running high, and no active short zone
  has its bottom above its top.\<close>

definition tidy :: "candle list \<Rightarrow> engine \<Rightarrow> bool" where
  "tidy frame st =
     (data st = frame \<and> lastUpLow st \<le> lastHigh st \<and>
      list_all (\<lambda>b. bottom b \<le> top_b b) (short_boxes st))"

text \<open>Nothing has been emitted.\<close>

definition idle :: "engine \<Rightarrow> bool" where
  "idle st = (short_boxes st = [] \<and> long_boxes st = [] \<and> bos_lines st = [])"

section \<open>Loops that may raise\<close>

lemma for_each_append:
  "for_each f (xs @ ys) s = (case for_each f xs s of Inl e \<Rightarrow> Inl e | Inr s' \<Rightarrow> for_each f ys s')"
  by (induction xs arbitrary: s) (auto split: sum.splits)

lemma for_each_invariant:
  assumes "for_each f xs s = Inr s'" and "I s"
    and "\<And>x t t'. x \<in> set xs \<Longrightarrow> I t \<Longrightarrow> f x t = Inr t' \<Longrightarrow> I t'"
  shows "I s'"
  using assms
proof (induction xs arbitrary: s)
  case Nil
  then show ?case by simp
next
  case (Cons x xs)
  from Cons.prems(1) obtain t where t: "f x s = Inr t" and rest: "for_each f xs t = Inr s'"
    by (auto split: sum.splits)
  have "I t" using Cons.prems(3) [of x s t] Cons.prems(2) t by simp
  then show ?case
    by (rule Cons.IH [OF rest]) (rule Cons.prems(3), simp_all)
qed

lemma for_each_total:
  assumes "I s"
    and "\<And>x t. x \<in> set xs \<Longrightarrow> I t \<Longrightarrow> \<exists>t'. f x t = Inr t' \<and> I t'"
  shows "\<exists>s'. for_each f xs s = Inr s' \<and> I s'"
  using assms
proof (induction xs arbitrary: s)
  case Nil
  then show ?case by simp
next
  case (Cons x xs)
  from Cons.prems obtain t where t: "f x s = Inr t" "I t"
    by (meson list.set_intros(1))
  from Cons.IH [OF t(2)] Cons.prems(2) obtain s' where "for_each f xs t = Inr s'" "I s'"
    by (meson list.set_intros(2))
  with t show ?case by simp
qed

section \<open>Rolling windows\<close>

lemma length_rolling [simp]: "length (rolling agg w xs) = length xs"
  by (simp add: rolling_def)

lemma length_shift1 [simp]: "length (shift1 ys) = length ys"
  by (cases ys) (simp_all add: shift1_def)

lemma shift1_nth:
  "i < length ys \<Longrightarrow> shift1 ys ! i = (case i of 0 \<Rightarrow> None | Suc j \<Rightarrow> ys ! j)"
proof (cases i)
  case 0
  assume "i < length ys"
  then show ?thesis using 0 by (cases ys) (simp_all add: shift1_def)
next
  case (Suc j)
  assume i: "i < length ys"
  then have "j < length (butlast ys)" using Suc by simp
  then have "butlast ys ! j = ys ! j" by (rule nth_butlast)
  then show ?thesis using Suc i by (cases ys) (simp_all add: shift1_def)
qed

lemma fold_min_Min: "fold min xs (x::real) = Min (set (x # xs))"
  by (rule Min.set_eq_fold [symmetric])

lemma set_drop_take:
  "b \<le> length xs \<Longrightarrow> set (drop a (take b xs)) = (\<lambda>k. xs ! k) ` {a..<b}"
proof -
  assume b: "b \<le> length xs"
  have "drop a (take b xs) = map (\<lambda>k. xs ! k) [a..<b]"
    using b by (auto intro!: nth_equalityI)
  then show ?thesis by simp
qed

lemma rolling_nth:
  assumes "j < length xs"
  shows "rolling agg w xs ! j =
     (if 0 < w \<and> w \<le> Suc j
      then Some (fold agg (tl (drop (Suc j - w) (take (Suc j) xs))) (hd (drop (Suc j - w) (take (Suc j) xs))))
      else None)"
proof -
  have len: "length (drop (Suc j - w) (take (Suc j) xs)) = min w (Suc j)"
    using assms by auto
  have "(drop (Suc j - w) (take (Suc j) xs) \<noteq> [] \<and> w \<le> length (drop (Suc j - w) (take (Suc j) xs)))
        = (0 < w \<and> w \<le> Suc j)"
    unfolding length_0_conv [symmetric] len by auto
  then show ?thesis
    using assms by (simp add: rolling_def Let_def del: length_0_conv length_drop length_take)
qed

lemma rolling_min_nth:
  assumes "j < length xs" "0 < w" "w \<le> Suc j"
  shows "rolling min w xs ! j = Some (Min ((\<lambda>k. xs ! k) ` {Suc j - w..<Suc j}))"
proof -
  let ?win = "drop (Suc j - w) (take (Suc j) xs)"
  have "length ?win = w" using assms by auto
  then have ne: "?win \<noteq> []" using assms by auto
  have "fold min (tl ?win) (hd ?win) = Min (set (hd ?win # tl ?win))"
    by (rule fold_min_Min)
  also have "hd ?win # tl ?win = ?win" using ne by simp
  also have "set ?win = (\<lambda>k. xs ! k) ` {Suc j - w..<Suc j}"
    using assms by (intro set_drop_take) simp
  finally show ?thesis using assms by (simp add: rolling_nth)
qed

lemma length_structure_low_series [simp]:
  "length (structure_low_series frame w) = length frame"
  by (simp add: structure_low_series_def)

lemma structure_low_series_nth:
  assumes "i < length frame"
  shows "structure_low_series frame w ! i =
     (if w = 0 \<or> i < w then None
      else Some (Min ((\<lambda>k. Low (frame ! k)) ` {i - w..<i})))"
proof (cases i)
  case 0
  then show ?thesis using assms by (auto simp add: structure_low_series_def shift1_nth)
next
  case (Suc j)
  have j: "j < length (map Low frame)" using assms Suc by simp
  show ?thesis
  proof (cases "0 < w \<and> w \<le> Suc j")
    case True
    have "(\<lambda>k. map Low frame ! k) ` {Suc j - w..<Suc j} = (\<lambda>k. Low (frame ! k)) ` {Suc j - w..<Suc j}"
      using assms Suc by (intro image_cong) auto
    then show ?thesis
      using True assms Suc rolling_min_nth [OF j, of w]
      by (simp add: structure_low_series_def shift1_nth)
  next
    case False
    then show ?thesis
      using assms Suc j by (auto simp add: structure_low_series_def shift1_nth rolling_nth)
  qed
qed

section \<open>The index pointer and \<open>calculate_structure_low\<close>\<close>

text \<open>The list \<open>minIndex\<close> starts as \<open>[0, .., n - 1]\<close> and line 62 writes \<open>i\<close> at position
  \<open>i\<close>: the loop leaves it as it is, and can only fail by reading a row that is not
  there.\<close>

lemma upt_update_self: "[0..<n][i := i] = [0..<n]"
  by (cases "i < n") (simp_all add: list_update_same_conv list_update_beyond)

lemma pointer_step_cases:
  "pointer_step frame i (mv, [0..<n]) =
     (if length frame \<le> i then Inl IndexError
      else Inr (if nan_lt (Low (frame ! i)) (mv ! i) then mv[i := Some (Low (frame ! i))] else mv,
                [0..<n]))"
  by (simp add: upt_update_self)

lemma pointer_loop_fails:
  assumes "list_ex (\<lambda>i. length frame \<le> i) js"
  shows "for_each (pointer_step frame) js (mv, [0..<n]) = Inl IndexError"
  using assms
  by (induction js arbitrary: mv) (auto simp add: pointer_step_cases simp del: pointer_step.simps)

lemma pointer_loop_succeeds:
  assumes "list_all (\<lambda>i. i < length frame) js"
  shows "\<exists>mv'. for_each (pointer_step frame) js (mv, [0..<n]) = Inr (mv', [0..<n])"
  using assms
  by (induction js arbitrary: mv) (simp_all add: pointer_step_cases del: pointer_step.simps)

lemma structureLowIndexPointer_eq:
  "structureLowIndexPointer st =
     (if range_len st < 0 then Inl ValueError
      else if 1 < range_len st \<and> int (length (data st)) < range_len st then Inl IndexError
      else Inr [0..<length (data st)])"
proof -
  let ?js = "[1..<nat (range_len st)]"
  let ?mv = "shift1 (rolling max (nat (range_len st)) (map High (data st)))"
  show ?thesis
  proof (cases "1 < range_len st \<and> int (length (data st)) < range_len st")
    case True
    then have "max 1 (length (data st)) \<in> set ?js" by auto
    then have "list_ex (\<lambda>i. length (data st) \<le> i) ?js"
      unfolding list_ex_iff by (intro bexI [of _ "max 1 (length (data st))"]) auto
    then have "for_each (pointer_step (data st)) ?js (?mv, [0..<length (data st)]) = Inl IndexError"
      by (rule pointer_loop_fails)
    then show ?thesis using True by (simp add: structureLowIndexPointer_def)
  next
    case False
    then have "list_all (\<lambda>i. i < length (data st)) ?js"
      unfolding list_all_iff by auto
    then obtain mv' where
      "for_each (pointer_step (data st)) ?js (?mv, [0..<length (data st)]) = Inr (mv', [0..<length (data st)])"
      using pointer_loop_succeeds by blast
    then show ?thesis using False by (auto simp add: structureLowIndexPointer_def)
  qed
qed

lemma calculate_structure_low_eq:
  "calculate_structure_low st =
     (if range_len st < 0 then Inl ValueError
      else if 1 < range_len st \<and> int (length (data st)) < range_len st then Inl IndexError
      else Inr (st\<lparr>structureLow := Series (structure_low_series (data st) (nat (range_len st))),
                   structureLowIndex := Series [0..<length (data st)]\<rparr>))"
  by (simp add: calculate_structure_low_def structureLowIndexPointer_eq Let_def)

lemma OrderBlockVisualizer_simps [simp]:
  "data (OrderBlockVisualizer frame rl) = frame"
  "range_len (OrderBlockVisualizer frame rl) = rl"
  "short_boxes (OrderBlockVisualizer frame rl) = []"
  "long_boxes (OrderBlockVisualizer frame rl) = []"
  "bos_lines (OrderBlockVisualizer frame rl) = []"
  "lastUpIndex (OrderBlockVisualizer frame rl) = 0"
  "lastUpLow (OrderBlockVisualizer frame rl) = 0"
  "lastHigh (OrderBlockVisualizer frame rl) = 0"
  by (simp_all add: OrderBlockVisualizer_def init_variables_def)

section \<open>Invariants of the scan\<close>

lemma short_loop_rule:
  assumes "P st"
    and "\<And>t b. P t \<Longrightarrow> b \<in> set (short_boxes t) \<Longrightarrow>
           P (bullish_flip i b (t\<lparr>short_boxes := remove1 b (short_boxes t)\<rparr>))"
  shows "P (short_loop i k st)"
  using assms
proof (induction i k st rule: short_loop.induct)
  case (1 i k st)
  note step = "1.prems"(2)
  show ?case
  proof (cases "k < length (short_boxes st)")
    case False
    then show ?thesis using "1.prems"(1) by (subst short_loop.simps) simp
  next
    case True
    then have mem: "short_boxes st ! k \<in> set (short_boxes st)" by simp
    show ?thesis
    proof (cases "top_b (short_boxes st ! k) < Close (data st ! i)")
      case hit: True
      have "P (bullish_flip i (short_boxes st ! k)
                 (st\<lparr>short_boxes := remove1 (short_boxes st ! k) (short_boxes st)\<rparr>))"
        using "1.prems"(1) mem by (rule step)
      then have "P (short_loop i (Suc k) (bullish_flip i (short_boxes st ! k)
                 (st\<lparr>short_boxes := remove1 (short_boxes st ! k) (short_boxes st)\<rparr>)))"
        using step by (rule "1.IH"(1) [OF True hit])
      then show ?thesis
        using True hit by (subst short_loop.simps) simp
    next
      case miss: False
      have "P (short_loop i (Suc k) st)"
        using "1.prems"(1) step by (rule "1.IH"(2) [OF True miss])
      then show ?thesis
        using True miss by (subst short_loop.simps) simp
    qed
  qed
qed

lemma long_loop_rule:
  assumes "P st"
    and "\<And>t b. P t \<Longrightarrow> b \<in> set (long_boxes t) \<Longrightarrow>
           P (t\<lparr>long_boxes := remove1 b (long_boxes t)\<rparr>)"
  shows "P (long_loop i k st)"
  using assms
proof (induction i k st rule: long_loop.induct)
  case (1 i k st)
  note step = "1.prems"(2)
  show ?case
  proof (cases "k < length (long_boxes st)")
    case False
    then show ?thesis using "1.prems"(1) by (subst long_loop.simps) simp
  next
    case True
    then have mem: "long_boxes st ! k \<in> set (long_boxes st)" by simp
    show ?thesis
    proof (cases "Close (data st ! i) < bottom (long_boxes st ! k)")
      case hit: True
      have "P (st\<lparr>long_boxes := remove1 (long_boxes st ! k) (long_boxes st)\<rparr>)"
        using "1.prems"(1) mem by (rule step)
      then have "P (long_loop i (Suc k)
                 (st\<lparr>long_boxes := remove1 (long_boxes st ! k) (long_boxes st)\<rparr>))"
        using step by (rule "1.IH"(1) [OF True hit])
      then show ?thesis
        using True hit by (subst long_loop.simps) simp
    next
      case miss: False
      have "P (long_loop i (Suc k) st)"
        using "1.prems"(1) step by (rule "1.IH"(2) [OF True miss])
      then show ?thesis
        using True miss by (subst long_loop.simps) simp
    qed
  qed
qed

text \<open>An invariant of one bar: it is enough to check the four places that write.\<close>

lemma process_bar_rule:
  assumes run: "process_bar i st = Inr st'"
    and init: "P st"
    and break: "\<And>t t'. P t \<Longrightarrow> bearish_break i t = Inr t' \<Longrightarrow> P t'"
    and flip: "\<And>t b. P t \<Longrightarrow> b \<in> set (short_boxes t) \<Longrightarrow>
           P (bullish_flip i b (t\<lparr>short_boxes := remove1 b (short_boxes t)\<rparr>))"
    and drop: "\<And>t b. P t \<Longrightarrow> b \<in> set (long_boxes t) \<Longrightarrow>
           P (t\<lparr>long_boxes := remove1 b (long_boxes t)\<rparr>)"
    and track: "\<And>t. P t \<Longrightarrow> P (record_candles i t)"
  shows "P st'"
proof -
  from run obtain s1 where s1: "bearish_break i st = Inr s1"
    and st': "st' = record_candles i (invalidate_longs i (invalidate_shorts i s1))"
    by (auto simp: process_bar_def split: sum.splits)
  have "P s1" using init s1 by (rule break)
  have "P (short_loop i 0 s1)"
    using \<open>P s1\<close> flip by (rule short_loop_rule [where P = P])
  with \<open>P s1\<close> have s2: "P (invalidate_shorts i s1)"
    by (simp add: invalidate_shorts_def)
  have "P (long_loop i 0 (invalidate_shorts i s1))"
    using s2 drop by (rule long_loop_rule [where P = P])
  with s2 have "P (invalidate_longs i (invalidate_shorts i s1))"
    by (simp add: invalidate_longs_def)
  then show ?thesis unfolding st' by (rule track)
qed

text \<open>What the two emitting steps can do to the state.\<close>

lemma bearish_break_in_range:
  "bearish_break i st = Inr st' \<Longrightarrow> i < length (data st)"
  by (auto simp: bearish_break_def split: if_splits)

lemma process_bar_in_range:
  "process_bar i st = Inr st' \<Longrightarrow> i < length (data st)"
  by (auto simp: process_bar_def split: sum.splits dest: bearish_break_in_range)

lemma bearish_break_cases:
  assumes "bearish_break i st = Inr st'"
  shows "st' = st \<or> st' = st\<lparr>lastShortIndex := lastUpIndex st\<rparr>
     \<or> (\<exists>v j. st' = st\<lparr>short_boxes := short_boxes st @
                            [add_order_block st (lastUpIndex st) (lastHigh st) (lastUpLow st)
                               ''rgba(255,0,0,0.9)''],
                          bos_lines := bos_lines st @ [add_order_block st j v v ''red''],
                          lastShortIndex := lastUpIndex st\<rparr>)"
  using assms
  by (auto simp: bearish_break_def split: if_splits field.splits option.splits)

lemma bullish_flip_cases:
  "bullish_flip i b st = st
   \<or> bullish_flip i b st =
       st\<lparr>long_boxes := long_boxes st @
              [add_order_block st (lastDownIndex st) (lastDown st) (lastLow st) ''rgba(0,255,0,0.9)''],
          bos_lines := bos_lines st @ [add_order_block st (left b) (top_b b) (top_b b) ''green''],
          lastLongIndex := i\<rparr>"
  by (simp add: bullish_flip_def)

lemma record_candles_fields [simp]:
  "data (record_candles i st) = data st"
  "structureLow (record_candles i st) = structureLow st"
  "structureLowIndex (record_candles i st) = structureLowIndex st"
  "short_boxes (record_candles i st) = short_boxes st"
  "long_boxes (record_candles i st) = long_boxes st"
  "bos_lines (record_candles i st) = bos_lines st"
  by (simp_all add: record_candles_def Let_def)

lemma process_bar_prepared:
  assumes "process_bar i st = Inr st'" and "prepared frame sl sli st"
  shows "prepared frame sl sli st'"
  using assms
proof (rule process_bar_rule)
  fix t t' assume "prepared frame sl sli t" "bearish_break i t = Inr t'"
  then show "prepared frame sl sli t'"
    using bearish_break_cases [of i t t'] by (auto simp: prepared_def)
next
  fix t b assume "prepared frame sl sli t"
  then show "prepared frame sl sli (bullish_flip i b (t\<lparr>short_boxes := remove1 b (short_boxes t)\<rparr>))"
    using bullish_flip_cases [of i b "t\<lparr>short_boxes := remove1 b (short_boxes t)\<rparr>"]
    by (auto simp: prepared_def)
next
  fix t b assume "prepared frame sl sli t"
  then show "prepared frame sl sli (t\<lparr>long_boxes := remove1 b (long_boxes t)\<rparr>)"
    by (simp add: prepared_def)
next
  fix t assume "prepared frame sl sli t"
  then show "prepared frame sl sli (record_candles i t)"
    by (simp add: prepared_def)
qed

lemma process_bar_total:
  assumes "prepared frame sl sli st" and "length sl = length frame"
    and "length sli = length frame" and "i < length frame"
  shows "\<exists>st'. process_bar i st = Inr st'"
  using assms
  by (simp add: process_bar_def bearish_break_def prepared_def split: option.splits)

lemma scan_total:
  assumes "prepared frame sl sli st" and "length sl = length frame"
    and "length sli = length frame" and "k \<le> length frame"
  shows "\<exists>st'. scan_upto k st = Inr st' \<and> prepared frame sl sli st'"
  unfolding scan_upto_def
proof (rule for_each_total [where I = "prepared frame sl sli"])
  show "prepared frame sl sli st" by fact
next
  fix i t assume i: "i \<in> set [0..<k]" and t: "prepared frame sl sli t"
  then have "i < length frame" using assms(4) by simp
  then obtain t' where "process_bar i t = Inr t'"
    using process_bar_total [OF t assms(2,3)] by blast
  then show "\<exists>t'. process_bar i t = Inr t' \<and> prepared frame sl sli t'"
    using process_bar_prepared [OF _ t] by blast
qed

lemma scan_upto_split:
  assumes "j \<le> k"
  shows "scan_upto k st =
     (case scan_upto j st of Inl e \<Rightarrow> Inl e | Inr s \<Rightarrow> for_each process_bar [j..<k] s)"
proof -
  have "[0..<k] = [0..<j] @ [j..<k]"
    using assms by (metis le_add_diff_inverse upt_add_eq_append zero_le)
  then show ?thesis by (simp add: scan_upto_def for_each_append)
qed

lemma calculate_prepared:
  assumes "calculate_structure_low (OrderBlockVisualizer frame rl) = Inr s0"
  shows "prepared frame (structure_low_series frame (nat rl)) [0..<length frame] s0
         \<and> short_boxes s0 = [] \<and> long_boxes s0 = [] \<and> bos_lines s0 = []
         \<and> lastUpLow s0 = 0 \<and> lastHigh s0 = 0"
  using assms
  by (auto simp: calculate_structure_low_eq prepared_def split: if_splits)

text \<open>Per-bar invariants: BOS lines, short zones, idle scans.\<close>

lemma process_bar_bos_prefix:
  assumes "process_bar i st = Inr st'" and "prefix xs (bos_lines st)"
  shows "prefix xs (bos_lines st')"
  using assms
proof (rule process_bar_rule [where P = "\<lambda>t. prefix xs (bos_lines t)"])
  fix t t' :: engine assume "prefix xs (bos_lines t)" "bearish_break i t = Inr t'"
  then show "prefix xs (bos_lines t')"
    using bearish_break_cases [of i t t'] by (auto simp: prefix_order.trans)
next
  fix t :: engine and b assume "prefix xs (bos_lines t)"
  then show "prefix xs (bos_lines (bullish_flip i b (t\<lparr>short_boxes := remove1 b (short_boxes t)\<rparr>)))"
    using bullish_flip_cases [of i b "t\<lparr>short_boxes := remove1 b (short_boxes t)\<rparr>"]
    by (auto simp: prefix_order.trans)
qed simp_all

lemma process_bar_bos_shape:
  assumes "process_bar i st = Inr st'"
    and "data st = frame \<and>
         list_all (\<lambda>l. right l = int (length frame) - 1 \<and> top_b l = bottom l) (bos_lines st)"
  shows "data st' = frame \<and>
         list_all (\<lambda>l. right l = int (length frame) - 1 \<and> top_b l = bottom l) (bos_lines st')"
  using assms
proof (rule process_bar_rule [where P = "\<lambda>t. data t = frame \<and>
         list_all (\<lambda>l. right l = int (length frame) - 1 \<and> top_b l = bottom l) (bos_lines t)"])
  fix t t' :: engine
  assume "data t = frame \<and>
         list_all (\<lambda>l. right l = int (length frame) - 1 \<and> top_b l = bottom l) (bos_lines t)"
    and "bearish_break i t = Inr t'"
  then show "data t' = frame \<and>
         list_all (\<lambda>l. right l = int (length frame) - 1 \<and> top_b l = bottom l) (bos_lines t')"
    using bearish_break_cases [of i t t'] by (auto simp: add_order_block_def)
next
  fix t :: engine and b
  assume "data t = frame \<and>
         list_all (\<lambda>l. right l = int (length frame) - 1 \<and> top_b l = bottom l) (bos_lines t)"
  then show "data (bullish_flip i b (t\<lparr>short_boxes := remove1 b (short_boxes t)\<rparr>)) = frame \<and>
         list_all (\<lambda>l. right l = int (length frame) - 1 \<and> top_b l = bottom l)
           (bos_lines (bullish_flip i b (t\<lparr>short_boxes := remove1 b (short_boxes t)\<rparr>)))"
    using bullish_flip_cases [of i b "t\<lparr>short_boxes := remove1 b (short_boxes t)\<rparr>"]
    by (auto simp: add_order_block_def)
qed simp_all

lemma list_all_remove1: "list_all P xs \<Longrightarrow> list_all P (remove1 x xs)"
  by (induction xs) auto

lemma bearish_break_tidy:
  assumes "bearish_break i st = Inr st'" and "tidy frame st"
  shows "tidy frame st'"
  using assms bearish_break_cases [of i st st']
  by (auto simp: tidy_def add_order_block_def)

lemma record_candles_tidy:
  assumes "tidy frame st" and "Low (frame ! i) \<le> High (frame ! i)"
  shows "tidy frame (record_candles i st)"
  using assms by (auto simp: tidy_def record_candles_def Let_def max_def)

lemma process_bar_tidy:
  assumes run: "process_bar i st = Inr st'" and tidy: "tidy frame st"
    and sane: "list_all (\<lambda>c. Low c \<le> High c) frame"
  shows "tidy frame st'"
proof -
  have "i < length frame"
    using process_bar_in_range [OF run] tidy by (simp add: tidy_def)
  then have bar: "Low (frame ! i) \<le> High (frame ! i)"
    using sane by (simp add: list_all_length)
  show ?thesis
    using run tidy
  proof (rule process_bar_rule [where P = "tidy frame"])
    fix t t' :: engine assume "tidy frame t" "bearish_break i t = Inr t'"
    then show "tidy frame t'" by (simp add: bearish_break_tidy)
  next
    fix t :: engine and b assume "tidy frame t"
    then show "tidy frame (bullish_flip i b (t\<lparr>short_boxes := remove1 b (short_boxes t)\<rparr>))"
      using bullish_flip_cases [of i b "t\<lparr>short_boxes := remove1 b (short_boxes t)\<rparr>"]
      by (auto simp: tidy_def list_all_remove1)
  next
    fix t :: engine and b assume "tidy frame t"
    then show "tidy frame (t\<lparr>long_boxes := remove1 b (long_boxes t)\<rparr>)"
      by (simp add: tidy_def)
  next
    fix t :: engine assume "tidy frame t"
    then show "tidy frame (record_candles i t)" using bar by (rule record_candles_tidy)
  qed
qed

lemma structure_low_series_all_NaN:
  "structure_low_series frame (length frame) = replicate (length frame) None"
  by (rule nth_equalityI) (simp_all add: structure_low_series_nth)

lemma process_bar_idle:
  assumes "prepared frame (replicate (length frame) None) sli st" and "idle st"
    and "i < length frame"
  shows "process_bar i st = Inr (record_candles i st)"
  using assms
  by (simp add: process_bar_def bearish_break_def prepared_def idle_def
      invalidate_shorts_def invalidate_longs_def)

text \<open>When the script raises.\<close>

lemma analyse_succeeds_iff:
  "(\<exists>st. analyse frame rl = Inr st) = (0 \<le> rl \<and> (rl \<le> 1 \<or> rl \<le> int (length frame)))"
proof (cases "0 \<le> rl \<and> (rl \<le> 1 \<or> rl \<le> int (length frame))")
  case False
  then have "\<exists>e. calculate_structure_low (OrderBlockVisualizer frame rl) = Inl e"
    by (auto simp: calculate_structure_low_eq)
  then show ?thesis using False by (auto simp: analyse_def)
next
  case True
  then obtain s0 where calc: "calculate_structure_low (OrderBlockVisualizer frame rl) = Inr s0"
    by (auto simp: calculate_structure_low_eq)
  have prep: "prepared frame (structure_low_series frame (nat rl)) [0..<length frame] s0"
    using calculate_prepared [OF calc] by simp
  then have "\<exists>st. scan_upto (length frame) s0 = Inr st
      \<and> prepared frame (structure_low_series frame (nat rl)) [0..<length frame] st"
    by (rule scan_total) simp_all
  moreover have "data s0 = frame" using prep by (simp add: prepared_def)
  ultimately show ?thesis
    using True calc by (auto simp: analyse_def process_order_blocks_def)
qed

lemma analyse_keeps_frame:
  assumes "analyse frame rl = Inr st"
  shows "data st = frame"
proof -
  from assms obtain s0 where calc: "calculate_structure_low (OrderBlockVisualizer frame rl) = Inr s0"
    and scan: "process_order_blocks s0 = Inr st"
    by (auto simp: analyse_def split: sum.splits)
  have prep: "prepared frame (structure_low_series frame (nat rl)) [0..<length frame] s0"
    using calculate_prepared [OF calc] by simp
  have "prepared frame (structure_low_series frame (nat rl)) [0..<length frame] st"
    using scan [unfolded process_order_blocks_def scan_upto_def] prep
    by (rule for_each_invariant) (rule process_bar_prepared)
  then show ?thesis by (simp add: prepared_def)
qed

section \<open>The structure extractor\<close>

text \<open>
  C3. For a positive \<open>range_len\<close>, the series that line 69 assigns to \<open>structureLow\<close>
  is unavailable (NaN) at every bar \<open>i < range_len\<close> and is, at every bar
  \<open>i \<ge> range_len\<close>, the minimum of \<open>low\<close> over the bars \<open>i - range_len .. i - 1\<close>.
  \<open>calculate_structure_low\<close> returns with that series in \<open>structureLow\<close>, unless line
  70 raises because the frame is shorter than \<open>range_len\<close>.
\<close>

theorem structureLow_trailing_minimum:
  assumes "0 < rl" and "i < length frame"
  shows "structure_low_series frame (nat rl) ! i =
           (if int i < rl then None
            else Some (Min ((\<lambda>k. Low (frame ! k)) ` {i - nat rl..<i})))
         \<and> (case calculate_structure_low (OrderBlockVisualizer frame rl) of
              Inl e \<Rightarrow> e = IndexError \<and> int (length frame) < rl
            | Inr st \<Rightarrow> structureLow st = Series (structure_low_series frame (nat rl)))"
proof -
  have "nat rl \<noteq> 0" and "(i < nat rl) = (int i < rl)" using assms(1) by auto
  then have "structure_low_series frame (nat rl) ! i =
           (if int i < rl then None
            else Some (Min ((\<lambda>k. Low (frame ! k)) ` {i - nat rl..<i})))"
    using structure_low_series_nth [OF assms(2), of "nat rl"] by simp
  moreover have "case calculate_structure_low (OrderBlockVisualizer frame rl) of
              Inl e \<Rightarrow> e = IndexError \<and> int (length frame) < rl
            | Inr st \<Rightarrow> structureLow st = Series (structure_low_series frame (nat rl))"
    using assms(1) by (simp add: calculate_structure_low_eq)
  ultimately show ?thesis by simp
qed

theorem structureLow_trailing_minimum_witness:
  "(0::int) < 2 \<and> 2 < length dip_frame \<and> 1 < length dip_frame
   \<and> structure_low_series dip_frame 2 ! 2 = Some 1
   \<and> structure_low_series dip_frame 2 ! 1 = None"
proof -
  have window: "{0..<2::nat} = {0, 1}" by auto
  show ?thesis
    using structureLow_trailing_minimum [of 2 2 dip_frame]
          structureLow_trailing_minimum [of 2 1 dip_frame]
    by (simp add: dip_frame_def bar_def window)
qed

text \<open>
  C2. The claim asks \<open>structureLowIndex[i]\<close> to be the position of the lowest low among
  the \<open>range_len\<close> bars before \<open>i\<close>. On \<open>dip_frame\<close> with \<open>range_len = 2\<close> the
  window of bar 2 is bars 0 and 1 and its lowest low, 1, is at bar 1;
  \<open>calculate_structure_low\<close> stores 2 at position 2. (By \<open>structureLowIndexPointer_eq\<close>
  the list is \<open>[0, 1, .., n - 1]\<close> on every frame.)
\<close>

theorem structureLowIndex_ignores_window:
  "calculate_structure_low (OrderBlockVisualizer dip_frame 2)
     = Inr ((OrderBlockVisualizer dip_frame 2)
              \<lparr>structureLow := Series [None, None, Some 1], structureLowIndex := Series [0, 1, 2]\<rparr>)
   \<and> Low (dip_frame ! 1) = 1 \<and> Low (dip_frame ! 1) < Low (dip_frame ! 0)"
  by code_simp

section \<open>Reference levels\<close>

text \<open>
  C7. On a frame of at least two bars \<open>calculate_pdh_pdl\<close> sets \<open>pdh\<close> and \<open>pdl\<close> to the
  high and the low of the second-to-last bar; on a shorter frame it fails (the
  \<open>IndexError\<close> of the subscript \<open>[-2]\<close>).
\<close>

theorem calculate_pdh_pdl_second_to_last:
  "calculate_pdh_pdl st =
     (if 2 \<le> length (data st)
      then Inr (st\<lparr>pdh := Some (High (data st ! (length (data st) - 2))),
                   pdl := Some (Low (data st ! (length (data st) - 2)))\<rparr>)
      else Inl IndexError)"
proof -
  have "nat (int (length (data st)) - 2) = length (data st) - 2" by simp
  then show ?thesis
    by (simp add: calculate_pdh_pdl_def py_index_def)
qed

section \<open>The order-block engine\<close>

text \<open>
  C1. The claim asks that at every bar each active short zone whose top is below the close
  is removed, the pass over the active zones skipping none. On \<open>flip_frame\<close> with
  \<open>range_len = 1\<close> two short zones, with tops 22 and 24, are active when bar 3 is
  processed, and bar 3 closes at 26. Line 105 removes the first zone while the loop of
  line 103 is iterating over the list, the second zone moves to the position the iterator
  has already passed, and the loop ends without visiting it: the zone with top 24 is still
  active after bar 3, which is the end of the scan.
\<close>

theorem short_zone_survives_close_above_top:
  "short_boxes (projr (scan_upto 3 (projr (calculate_structure_low (OrderBlockVisualizer flip_frame 1)))))
     = [\<lparr>left = 0, top_b = 22, bottom = 0, right = 3, color = ''rgba(255,0,0,0.9)''\<rparr>,
        \<lparr>left = 1, top_b = 24, bottom = 16, right = 3, color = ''rgba(255,0,0,0.9)''\<rparr>]
   \<and> Close (flip_frame ! 3) = 26
   \<and> short_boxes (projr (scan_upto 4 (projr (calculate_structure_low (OrderBlockVisualizer flip_frame 1)))))
     = [\<lparr>left = 1, top_b = 24, bottom = 16, right = 3, color = ''rgba(255,0,0,0.9)''\<rparr>]
   \<and> analyse flip_frame 1
     = scan_upto 4 (projr (calculate_structure_low (OrderBlockVisualizer flip_frame 1)))"
  by code_simp

text \<open>
  C4. If every bar of the frame has \<open>low \<le> high\<close>, then at every bar \<open>i\<close>, right after
  lines 95-100 (the only place that creates short zones) have run on the state reached by
  scanning bars \<open>0 .. i - 1\<close>, every short zone in \<open>short_boxes\<close>, the one just created
  included, has its bottom not above its top.
\<close>

theorem short_block_top_not_below_bottom:
  assumes "list_all (\<lambda>c. Low c \<le> High c) frame"
    and "calculate_structure_low (OrderBlockVisualizer frame rl) = Inr s0"
    and "scan_upto i s0 = Inr st"
    and "bearish_break i st = Inr st'"
  shows "list_all (\<lambda>b. bottom b \<le> top_b b) (short_boxes st')"
proof -
  have "tidy frame s0"
    using calculate_prepared [OF assms(2)] by (simp add: tidy_def prepared_def)
  with assms(3) [unfolded scan_upto_def] have "tidy frame st"
    by (rule for_each_invariant) (rule process_bar_tidy, assumption+, rule assms(1))
  with assms(4) have "tidy frame st'" by (rule bearish_break_tidy)
  then show ?thesis by (simp add: tidy_def)
qed

theorem short_block_top_not_below_bottom_witness:
  "list_all (\<lambda>c. Low c \<le> High c) flip_frame
   \<and> short_boxes (projr (bearish_break 2 (projr (scan_upto 2
         (projr (calculate_structure_low (OrderBlockVisualizer flip_frame 1)))))))
      = [\<lparr>left = 0, top_b = 22, bottom = 0, right = 3, color = ''rgba(255,0,0,0.9)''\<rparr>,
         \<lparr>left = 1, top_b = 24, bottom = 16, right = 3, color = ''rgba(255,0,0,0.9)''\<rparr>]
   \<and> list_all (\<lambda>b. bottom b \<le> top_b b)
        (short_boxes (projr (bearish_break 2 (projr (scan_upto 2
           (projr (calculate_structure_low (OrderBlockVisualizer flip_frame 1))))))))"
proof -
  let ?s0 = "projr (calculate_structure_low (OrderBlockVisualizer flip_frame 1))"
  let ?s2 = "projr (scan_upto 2 ?s0)"
  have sane: "list_all (\<lambda>c. Low c \<le> High c) flip_frame" by code_simp
  have "\<not> isl (calculate_structure_low (OrderBlockVisualizer flip_frame 1))" by code_simp
  then have calc: "calculate_structure_low (OrderBlockVisualizer flip_frame 1) = Inr ?s0" by simp
  have "\<not> isl (scan_upto 2 ?s0)" by code_simp
  then have scan: "scan_upto 2 ?s0 = Inr ?s2" by simp
  have "\<not> isl (bearish_break 2 ?s2)" by code_simp
  then have brk: "bearish_break 2 ?s2 = Inr (projr (bearish_break 2 ?s2))" by simp
  have "short_boxes (projr (bearish_break 2 ?s2))
      = [\<lparr>left = 0, top_b = 22, bottom = 0, right = 3, color = ''rgba(255,0,0,0.9)''\<rparr>,
         \<lparr>left = 1, top_b = 24, bottom = 16, right = 3, color = ''rgba(255,0,0,0.9)''\<rparr>]"
    by code_simp
  then show ?thesis
    using sane short_block_top_not_below_bottom [OF sane calc scan brk] by simp
qed

text \<open>
  C5. BOS lines are append-only: for \<open>j \<le> k\<close>, the list of BOS lines after the first
  \<open>j\<close> bars of a scan is a prefix of the list after the first \<open>k\<close> bars, from whatever
  state the scan starts; so no line is removed or changed and the count never decreases.
\<close>

theorem bos_lines_append_only:
  assumes "j \<le> k" and "scan_upto j st = Inr sj" and "scan_upto k st = Inr sk"
  shows "prefix (bos_lines sj) (bos_lines sk) \<and> length (bos_lines sj) \<le> length (bos_lines sk)"
proof -
  have rest: "for_each process_bar [j..<k] sj = Inr sk"
    using assms scan_upto_split [OF assms(1), of st] by simp
  have "prefix (bos_lines sj) (bos_lines sk)"
    using rest
  proof (rule for_each_invariant [where I = "\<lambda>t. prefix (bos_lines sj) (bos_lines t)"])
    show "prefix (bos_lines sj) (bos_lines sj)" by simp
  qed (rule process_bar_bos_prefix)
  then show ?thesis by (simp add: prefix_length_le)
qed

theorem bos_lines_append_only_witness:
  "(2::nat) \<le> 4
   \<and> prefix (bos_lines (projr (scan_upto 2 (projr (calculate_structure_low (OrderBlockVisualizer flip_frame 1))))))
        (bos_lines (projr (scan_upto 4 (projr (calculate_structure_low (OrderBlockVisualizer flip_frame 1))))))
   \<and> length (bos_lines (projr (scan_upto 2 (projr (calculate_structure_low (OrderBlockVisualizer flip_frame 1)))))) = 1
   \<and> length (bos_lines (projr (scan_upto 4 (projr (calculate_structure_low (OrderBlockVisualizer flip_frame 1)))))) = 3"
proof -
  let ?s0 = "projr (calculate_structure_low (OrderBlockVisualizer flip_frame 1))"
  have "\<not> isl (scan_upto 2 ?s0)" by code_simp
  then have two: "scan_upto 2 ?s0 = Inr (projr (scan_upto 2 ?s0))" by simp
  have "\<not> isl (scan_upto 4 ?s0)" by code_simp
  then have four: "scan_upto 4 ?s0 = Inr (projr (scan_upto 4 ?s0))" by simp
  have le: "(2::nat) \<le> 4" by simp
  have "length (bos_lines (projr (scan_upto 2 ?s0))) = 1" by code_simp
  moreover have "length (bos_lines (projr (scan_upto 4 ?s0))) = 3" by code_simp
  ultimately show ?thesis
    using bos_lines_append_only [OF le two four] by simp
qed

text \<open>
  C6. On a frame whose length is exactly \<open>range_len\<close> the calls of the script up to the end
  of the scan succeed, every entry of \<open>structureLow\<close> is unavailable (NaN), and there are
  no short zones, no long zones and no BOS lines.
\<close>

theorem frame_of_length_range_len_yields_nothing:
  "\<exists>st. analyse frame (int (length frame)) = Inr st
        \<and> structureLow st = Series (replicate (length frame) None)
        \<and> short_boxes st = [] \<and> long_boxes st = [] \<and> bos_lines st = []"
proof -
  let ?sl = "replicate (length frame) None :: real option list"
  let ?I = "\<lambda>t. prepared frame ?sl [0..<length frame] t \<and> idle t"
  obtain s0 where calc: "calculate_structure_low (OrderBlockVisualizer frame (int (length frame))) = Inr s0"
    by (simp add: calculate_structure_low_eq)
  have start: "?I s0"
    using calculate_prepared [OF calc] by (simp add: structure_low_series_all_NaN idle_def)
  have "\<exists>st. for_each process_bar [0..<length frame] s0 = Inr st \<and> ?I st"
    using start
  proof (rule for_each_total [where I = ?I])
    fix i t assume "i \<in> set [0..<length frame]" and t: "?I t"
    then have "process_bar i t = Inr (record_candles i t)"
      using process_bar_idle [of frame "[0..<length frame]" t i] by simp
    moreover have "?I (record_candles i t)"
      using t by (simp add: prepared_def idle_def)
    ultimately show "\<exists>t'. process_bar i t = Inr t' \<and> ?I t'" by simp
  qed
  then obtain st where "for_each process_bar [0..<length frame] s0 = Inr st" and "?I st"
    by blast
  moreover have "data s0 = frame" using start by (simp add: prepared_def)
  ultimately show ?thesis
    using calc by (simp add: analyse_def process_order_blocks_def scan_upto_def prepared_def idle_def)
qed

text \<open>
  C9. After any number of bars of the scan, every BOS line in \<open>bos_lines\<close> (red ones from a
  structure break and green ones from an invalidated short zone) has \<open>right\<close> equal to
  \<open>len(data) - 1\<close> and \<open>top\<close> equal to \<open>bottom\<close>.
\<close>

theorem bos_lines_horizontal_to_last_bar:
  assumes "calculate_structure_low (OrderBlockVisualizer frame rl) = Inr s0"
    and "scan_upto k s0 = Inr st"
  shows "list_all (\<lambda>l. right l = int (length frame) - 1 \<and> top_b l = bottom l) (bos_lines st)"
proof -
  have start: "data s0 = frame \<and>
      list_all (\<lambda>l. right l = int (length frame) - 1 \<and> top_b l = bottom l) (bos_lines s0)"
    using calculate_prepared [OF assms(1)] by (simp add: prepared_def)
  have "data st = frame \<and>
      list_all (\<lambda>l. right l = int (length frame) - 1 \<and> top_b l = bottom l) (bos_lines st)"
    using assms(2) [unfolded scan_upto_def] start
    by (rule for_each_invariant) (rule process_bar_bos_shape)
  then show ?thesis by simp
qed

theorem bos_lines_horizontal_to_last_bar_witness:
  "list_all (\<lambda>l. right l = int (length flip_frame) - 1 \<and> top_b l = bottom l)
     (bos_lines (projr (analyse flip_frame 1)))
   \<and> map color (bos_lines (projr (analyse flip_frame 1))) = [''red'', ''red'', ''green'']"
proof -
  let ?s0 = "projr (calculate_structure_low (OrderBlockVisualizer flip_frame 1))"
  have "\<not> isl (calculate_structure_low (OrderBlockVisualizer flip_frame 1))" by code_simp
  then have calc: "calculate_structure_low (OrderBlockVisualizer flip_frame 1) = Inr ?s0" by simp
  have "\<not> isl (scan_upto 4 ?s0)" by code_simp
  then have scan: "scan_upto 4 ?s0 = Inr (projr (scan_upto 4 ?s0))" by simp
  have same: "analyse flip_frame 1 = scan_upto 4 ?s0" by code_simp
  have "map color (bos_lines (projr (analyse flip_frame 1))) = [''red'', ''red'', ''green'']"
    by code_simp
  then show ?thesis
    using bos_lines_horizontal_to_last_bar [OF calc scan] same by simp
qed

text \<open>
  C10. There is a frame on which a structure break happens before any bullish bar:
  on \<open>early_break_frame\<close> with \<open>range_len = 1\<close> no bar has \<open>close > open\<close>, bar 1
  undercuts the structural low 3, and the short zone emitted has \<open>left = 0\<close> and
  \<open>bottom = 0\<close>, the values \<open>_init_variables\<close> gave \<open>lastUpIndex\<close> and \<open>lastUpLow\<close>.
\<close>

theorem short_block_before_any_bullish_bar:
  "list_all (\<lambda>c. \<not> Open c < Close c) early_break_frame
   \<and> structure_low_series early_break_frame 1 ! 1 = Some 3
   \<and> Low (early_break_frame ! 1) < 3
   \<and> \<not> isl (analyse early_break_frame 1)
   \<and> short_boxes (projr (analyse early_break_frame 1))
       = [\<lparr>left = 0, top_b = 6, bottom = 0, right = 1, color = ''rgba(255,0,0,0.9)''\<rparr>]
   \<and> lastUpIndex (projr (analyse early_break_frame 1)) = 0
   \<and> lastUpLow (projr (analyse early_break_frame 1)) = 0"
  by code_simp

section \<open>Malformed candles\<close>

text \<open>
  C8, as amended. The program never validates candles. Whatever the bars hold (also a bar
  with \<open>high < low\<close>, also timestamps out of order), \<open>calculate_structure_low\<close> followed by
  the scan completes without an error exactly when \<open>0 \<le> range_len\<close> and \<open>range_len\<close> is
  at most 1 or at most the number of bars, and the script up to \<open>calculate_pdh_pdl\<close>
  completes exactly when \<open>0 \<le> range_len \<le> n\<close> and there are at least two bars.
\<close>

theorem candles_are_never_validated:
  "(\<exists>st. analyse frame rl = Inr st) = (0 \<le> rl \<and> (rl \<le> 1 \<or> rl \<le> int (length frame)))
   \<and> (\<exists>st. script frame rl = Inr st) = (0 \<le> rl \<and> rl \<le> int (length frame) \<and> 2 \<le> length frame)"
proof -
  have "(\<exists>st. script frame rl = Inr st) = (0 \<le> rl \<and> rl \<le> int (length frame) \<and> 2 \<le> length frame)"
  proof (cases "\<exists>st. analyse frame rl = Inr st")
    case False
    then have "\<not> (\<exists>st. script frame rl = Inr st)"
      by (auto simp: script_def split: sum.splits)
    then show ?thesis using False analyse_succeeds_iff [of frame rl] by auto
  next
    case True
    then obtain s where s: "analyse frame rl = Inr s" by blast
    then have "data s = frame" by (rule analyse_keeps_frame)
    then have "(\<exists>st. script frame rl = Inr st) = (2 \<le> length frame)"
      using s by (simp add: script_def calculate_pdh_pdl_def py_index_def)
    then show ?thesis using True analyse_succeeds_iff [of frame rl] by auto
  qed
  then show ?thesis using analyse_succeeds_iff [of frame rl] by simp
qed

text \<open>
  C8 as stated fails: \<open>bad_frame\<close> has a bar with \<open>high < low\<close> and decreasing
  timestamps, and the script does not reject it; it scans the frame and produces a short
  zone, a BOS line and reference levels with \<open>PDH < PDL\<close>.
\<close>

theorem malformed_frame_is_scanned:
  "High (bad_frame ! 0) < Low (bad_frame ! 0)
   \<and> timestamp (bad_frame ! 1) < timestamp (bad_frame ! 0)
   \<and> \<not> isl (script bad_frame 1)
   \<and> short_boxes (projr (script bad_frame 1))
       = [\<lparr>left = 0, top_b = 1, bottom = 0, right = 1, color = ''rgba(255,0,0,0.9)''\<rparr>]
   \<and> bos_lines (projr (script bad_frame 1))
       = [\<lparr>left = 1, top_b = 4, bottom = 4, right = 1, color = ''red''\<rparr>]
   \<and> pdh (projr (script bad_frame 1)) = Some 1
   \<and> pdl (projr (script bad_frame 1)) = Some 4"
  by code_simp

end
